theory Spec2Isabelle
  imports Main "HOL-Library.Multiset"
begin

section \<open>The genre categorization helpers of \<^verbatim>\<open>frontend/src/script.ts\<close>\<close>

text \<open>
  The development embeds \<^verbatim>\<open>fetchArtistGenres\<close>, \<^verbatim>\<open>enrichTracksWithGenres\<close> and
  \<^verbatim>\<open>categorizeTracksByGenre\<close>. The three functions use plain JavaScript objects as
  dictionaries, so the embedding keeps the two properties of such objects that the
  functions can observe: a property read falls back to \<^verbatim>\<open>Object.prototype\<close>, and the
  own keys are enumerated with the array indices first, in ascending numeric order,
  followed by the other keys in the order of their creation.
\<close>

subsection \<open>Values, errors and records\<close>

text \<open>
  A rejected promise or a thrown exception is a value of \<open>js_error\<close>:
  \<open>NetworkError\<close> is the rejection of \<^verbatim>\<open>fetch\<close>, \<open>SyntaxError\<close> the rejection of
  \<^verbatim>\<open>result.json()\<close> on a body that is not JSON, \<open>TypeError\<close> the call of a
  property that is not a function.
\<close>

datatype js_error = NetworkError | SyntaxError | TypeError

text \<open>
  The items of a genre list. A catalog array holds strings; a read of the catalog object
  that falls through to \<^verbatim>\<open>Object.prototype\<close> yields the member stored there under the
  name read, which is not a string.
\<close>

datatype js_value = Str string | ProtoMember string

record artist =
  artist_id :: string
  artist_name :: string

record track =
  track_id :: string
  track_name :: string
  artists :: "artist list"
  album_name :: string
  popularity :: int
  preview_url :: "string option"
  added_at :: string
  genres :: "js_value list option"

subsection \<open>Plain objects used as dictionaries\<close>

text \<open>The own properties of an object, in the order of their creation.\<close>

type_synonym 'v js_object = "(string \<times> 'v) list"

text \<open>The property names that every plain object inherits from \<^verbatim>\<open>Object.prototype\<close>.\<close>

definition object_prototype_names :: "string list" where
  "object_prototype_names =
     [''constructor'', ''__defineGetter__'', ''__defineSetter__'', ''hasOwnProperty'',
      ''__lookupGetter__'', ''__lookupSetter__'', ''isPrototypeOf'',
      ''propertyIsEnumerable'', ''toString'', ''valueOf'', ''__proto__'',
      ''toLocaleString'']"

datatype 'v lookup = Undefined | Own 'v | Inherited string

text \<open>The read \<^verbatim>\<open>obj[key]\<close>: an own property first, then the prototype.\<close>

definition get_property :: "'v js_object \<Rightarrow> string \<Rightarrow> 'v lookup" where
  "get_property obj key =
     (case map_of obj key of
        Some v \<Rightarrow> Own v
      | None \<Rightarrow> if key \<in> set object_prototype_names then Inherited key else Undefined)"

text \<open>
  The write \<^verbatim>\<open>obj[key] = v\<close>, as the functions below use it: on a key that is an own
  property already, or that is neither own nor inherited. An own property keeps its
  place, a new one is created last.
\<close>

definition set_property :: "'v js_object \<Rightarrow> string \<Rightarrow> 'v \<Rightarrow> 'v js_object" where
  "set_property obj key v =
     (if key \<in> set (map fst obj)
      then map (\<lambda>(k, w). if k = key then (k, v) else (k, w)) obj
      else obj @ [(key, v)])"

text \<open>
  An array index is the canonical decimal numeral of an integer below \<open>2^32 - 1\<close>:
  digits only, no leading zero.
\<close>

definition is_digit :: "char \<Rightarrow> bool" where
  "is_digit c = (48 \<le> (of_char c :: int) \<and> (of_char c :: int) \<le> 57)"

definition index_value :: "string \<Rightarrow> int" where
  "index_value s = foldl (\<lambda>n c. 10 * n + ((of_char c :: int) - 48)) 0 s"

definition is_array_index :: "string \<Rightarrow> bool" where
  "is_array_index s =
     (s \<noteq> [] \<and> list_all is_digit s \<and> (if hd s = CHR ''0'' then length s = 1 else True)
      \<and> index_value s < 4294967295)"

text \<open>
  The order in which the own keys of an object are enumerated, from the order of their
  creation: array indices ascending, then the other keys as created.
\<close>

definition enumerate_keys :: "string list \<Rightarrow> string list" where
  "enumerate_keys ks =
     sort_key index_value (filter is_array_index ks) @ filter (\<lambda>k. \<not> is_array_index k) ks"

text \<open>\<^verbatim>\<open>Object.keys(obj)\<close>.\<close>

definition object_keys :: "'v js_object \<Rightarrow> string list" where
  "object_keys obj = enumerate_keys (map fst obj)"

text \<open>The array stored under a key; the empty array when there is none.\<close>

definition bucket :: "'a list js_object \<Rightarrow> string \<Rightarrow> 'a list" where
  "bucket obj key = (case map_of obj key of Some b \<Rightarrow> b | None \<Rightarrow> [])"

text \<open>\<^verbatim>\<open>Object.entries(obj)\<close>, the order in which a caller sees the result.\<close>

definition object_entries :: "'a list js_object \<Rightarrow> (string \<times> 'a list) list" where
  "object_entries obj = map (\<lambda>k. (k, bucket obj k)) (object_keys obj)"

text \<open>
  The conversion of a value to a property key. A string is its own key; a member of
  \<^verbatim>\<open>Object.prototype\<close> is keyed by its string conversion, written here as V8 prints it.
\<close>

definition to_property_key :: "js_value \<Rightarrow> string" where
  "to_property_key v =
     (case v of
        Str s \<Rightarrow> s
      | ProtoMember n \<Rightarrow>
          if n = ''__proto__'' then ''[object Object]''
          else ''function '' @ (if n = ''constructor'' then ''Object'' else n)
               @ ''() { [native code] }'')"

text \<open>
  \<^verbatim>\<open>[...new Set(xs)]\<close>: a set keeps its elements in the order of their first insertion.
\<close>

definition set_add :: "'a \<Rightarrow> 'a list \<Rightarrow> 'a list" where
  "set_add x s = (if x \<in> set s then s else s @ [x])"

definition new_Set :: "'a list \<Rightarrow> 'a list" where
  "new_Set xs = fold set_add xs []"

text \<open>\<^verbatim>\<open>forEach\<close> with a callback that may throw: the first exception ends the loop.\<close>

fun for_each :: "('a \<Rightarrow> 's \<Rightarrow> js_error + 's) \<Rightarrow> 'a list \<Rightarrow> 's \<Rightarrow> js_error + 's" where
  "for_each f [] s = Inr s"
| "for_each f (x # xs) s = (case f x s of Inl e \<Rightarrow> Inl e | Inr s' \<Rightarrow> for_each f xs s')"

subsection \<open>The catalog lookup and the enricher\<close>

text \<open>
  The answer of the backend to \<^verbatim>\<open>POST /api/artists\<close>. \<open>json_body\<close> is the object that
  the body parses to, an object from artist identifiers to arrays of genre labels, or
  \<open>None\<close> when the body is not JSON.
\<close>

record http_response =
  status :: nat
  json_body :: "string list js_object option"

text \<open>
  The backend as the functions see it: the bearer token and the \<^verbatim>\<open>artist_ids\<close> of the
  request give a response, or \<^verbatim>\<open>fetch\<close> rejects.
\<close>

type_synonym backend = "string \<Rightarrow> string list \<Rightarrow> js_error + http_response"

definition fetchArtistGenres ::
  "backend \<Rightarrow> string \<Rightarrow> string list \<Rightarrow> js_error + string list js_object" where
  "fetchArtistGenres fetch token artistIds =
     (case fetch token artistIds of
        Inl e \<Rightarrow> Inl e
      | Inr result \<Rightarrow>
          (case json_body result of None \<Rightarrow> Inl SyntaxError | Some m \<Rightarrow> Inr m))"

text \<open>
  The callback of the inner \<^verbatim>\<open>flatMap\<close>, \<^verbatim>\<open>artistGenreMap[artist.id] || []\<close>, together
  with the flattening: an array contributes its elements, any other value itself.
\<close>

definition artist_genres :: "string list js_object \<Rightarrow> artist \<Rightarrow> js_value list" where
  "artist_genres artistGenreMap a =
     (case get_property artistGenreMap (artist_id a) of
        Undefined \<Rightarrow> []
      | Own gs \<Rightarrow> map Str gs
      | Inherited n \<Rightarrow> [ProtoMember n])"

definition all_artist_ids :: "track list \<Rightarrow> string list" where
  "all_artist_ids tracks = new_Set (concat (map (\<lambda>t. map artist_id (artists t)) tracks))"

definition enrich_track :: "string list js_object \<Rightarrow> track \<Rightarrow> track" where
  "enrich_track artistGenreMap t =
     t\<lparr>genres := Some (new_Set (concat (map (artist_genres artistGenreMap) (artists t))))\<rparr>"

definition enrichTracksWithGenres ::
  "backend \<Rightarrow> string \<Rightarrow> track list \<Rightarrow> js_error + track list" where
  "enrichTracksWithGenres fetch token tracks =
     (let artistIds = all_artist_ids tracks in
      case fetchArtistGenres fetch token artistIds of
        Inl e \<Rightarrow> Inl e
      | Inr artistGenreMap \<Rightarrow> Inr (map (enrich_track artistGenreMap) tracks))"

subsection \<open>The categorizer\<close>

text \<open>\<^verbatim>\<open>categorized[key].push(track)\<close> on an own array.\<close>

definition push_track :: "track list js_object \<Rightarrow> string \<Rightarrow> track \<Rightarrow> track list js_object" where
  "push_track categorized key t =
     map (\<lambda>(k, b). if k = key then (k, b @ [t]) else (k, b)) categorized"

text \<open>
  \<^verbatim>\<open>if (!categorized[key]) { categorized[key] = []; } categorized[key].push(track);\<close>
  An own array and an inherited member are both truthy, so only a key that is neither
  gets a fresh array. An inherited member has no \<^verbatim>\<open>push\<close>, and calling it throws.
\<close>

definition add_to_bucket ::
  "track list js_object \<Rightarrow> string \<Rightarrow> track \<Rightarrow> js_error + track list js_object" where
  "add_to_bucket categorized key t =
     (case get_property categorized key of
        Undefined \<Rightarrow> Inr (push_track (set_property categorized key []) key t)
      | Own b \<Rightarrow> Inr (push_track categorized key t)
      | Inherited n \<Rightarrow> Inl TypeError)"

text \<open>The body of the outer \<^verbatim>\<open>forEach\<close>: the test is \<^verbatim>\<open>track.genres && track.genres.length > 0\<close>.\<close>

definition categorize_track ::
  "track \<Rightarrow> track list js_object \<Rightarrow> js_error + track list js_object" where
  "categorize_track t categorized =
     (case genres t of
        Some (g # gs) \<Rightarrow>
          for_each (\<lambda>genre c. add_to_bucket c (to_property_key genre) t) (g # gs) categorized
      | _ \<Rightarrow> add_to_bucket categorized ''Uncategorized'' t)"

text \<open>
  The comparator \<^verbatim>\<open>(a, b) => categorized[b].length - categorized[a].length\<close> puts the
  longer array first. \<^verbatim>\<open>Array.prototype.sort\<close> is stable, so the sorted array is the
  stable sort of the keys by the negated length.
\<close>

definition by_size :: "track list js_object \<Rightarrow> string \<Rightarrow> int" where
  "by_size categorized genre = - int (length (bucket categorized genre))"

text \<open>
  The second half of the function: the sorted keys are copied in their order into a fresh
  object, which is returned.
\<close>

definition sort_categories :: "track list js_object \<Rightarrow> track list js_object" where
  "sort_categories categorized =
     fold (\<lambda>genre sortedCategories. set_property sortedCategories genre (bucket categorized genre))
       (sort_key (by_size categorized) (object_keys categorized))
       []"

definition categorizeTracksByGenre :: "track list \<Rightarrow> js_error + track list js_object" where
  "categorizeTracksByGenre tracks =
     (case for_each categorize_track tracks [] of
        Inl e \<Rightarrow> Inl e
      | Inr categorized \<Rightarrow> Inr (sort_categories categorized))"

text \<open>
  Modelled from the spec: the caller that runs the enricher and hands its result to the
  categorizer is not among the sources (the spec names it \<^verbatim>\<open>categorizeTracks\<close> and
  describes it as the sequence resolve catalog, enrich, categorize, each step with one
  potential failure).
\<close>

definition categorizeTracks ::
  "backend \<Rightarrow> string \<Rightarrow> track list \<Rightarrow> js_error + track list js_object" where
  "categorizeTracks fetch token tracks =
     (case enrichTracksWithGenres fetch token tracks of
        Inl e \<Rightarrow> Inl e
      | Inr enriched \<Rightarrow> categorizeTracksByGenre enriched)"

section \<open>Notions used in the statements\<close>

subsection \<open>What the categorizer does with one track\<close>

text \<open>The genre list of a track, empty when the field is missing.\<close>

definition genre_list :: "track \<Rightarrow> js_value list" where
  "genre_list t = (case genres t of None \<Rightarrow> [] | Some gs \<Rightarrow> gs)"

text \<open>
  The property keys under which the loop files a track, in order and with repetitions:
  the keys of its genre items, or \<^verbatim>\<open>Uncategorized\<close> alone.
\<close>

definition track_keys :: "track \<Rightarrow> string list" where
  "track_keys t =
     (case genres t of
        Some (g # gs) \<Rightarrow> map to_property_key (g # gs)
      | _ \<Rightarrow> [''Uncategorized''])"

text \<open>The sequence of all \<^verbatim>\<open>push\<close> calls that a run over a track list attempts.\<close>

definition pushes :: "track list \<Rightarrow> (string \<times> track) list" where
  "pushes tracks = concat (map (\<lambda>t. map (\<lambda>k. (k, t)) (track_keys t)) tracks)"

definition add_push ::
  "string \<times> track \<Rightarrow> track list js_object \<Rightarrow> js_error + track list js_object" where
  "add_push p c = add_to_bucket c (fst p) (snd p)"

text \<open>A key is safe when a plain object does not inherit it.\<close>

definition safe_key :: "string \<Rightarrow> bool" where
  "safe_key k = (k \<notin> set object_prototype_names)"

text \<open>
  The contents of a bucket, the keys in the order of their first use, and the sort key of
  the second half, all read off the input list.
\<close>

definition bucket_of :: "track list \<Rightarrow> string \<Rightarrow> track list" where
  "bucket_of tracks k = map snd (filter (\<lambda>p. fst p = k) (pushes tracks))"

definition first_seen :: "track list \<Rightarrow> string list" where
  "first_seen tracks = new_Set (map fst (pushes tracks))"

definition size_key :: "track list \<Rightarrow> string \<Rightarrow> int" where
  "size_key tracks g = - int (length (bucket_of tracks g))"

text \<open>A track that was never enriched, or that no artist gave a genre.\<close>

definition unenriched :: "track \<Rightarrow> bool" where
  "unenriched t = (genres t = None \<or> genres t = Some [])"

text \<open>
  Blank labels: the empty string and the strings of white space only (tab, line feed,
  vertical tab, form feed, carriage return, space, no-break space).
\<close>

definition is_whitespace :: "char \<Rightarrow> bool" where
  "is_whitespace c =
     (c \<in> set [CHR 0x09, CHR 0x0A, CHR 0x0B, CHR 0x0C, CHR 0x0D, CHR '' '', CHR 0xA0])"

definition is_blank :: "string \<Rightarrow> bool" where
  "is_blank s = list_all is_whitespace s"

text \<open>
  An artist whose identifier the catalog object owns, or at least does not inherit.
\<close>

definition plain_artist :: "string list js_object \<Rightarrow> artist \<Rightarrow> bool" where
  "plain_artist m a =
     (artist_id a \<in> set (map fst m) \<or> artist_id a \<notin> set object_prototype_names)"

subsection \<open>Sample data\<close>

definition sample_track :: "string \<Rightarrow> string list \<Rightarrow> js_value list option \<Rightarrow> track" where
  "sample_track i as gs =
     \<lparr>track_id = i, track_name = i,
      artists = map (\<lambda>a. \<lparr>artist_id = a, artist_name = a\<rparr>) as,
      album_name = ''album'', popularity = 50, preview_url = None,
      added_at = ''2024-01-01T00:00:00Z'', genres = gs\<rparr>"

definition rock_one :: track where
  "rock_one = sample_track ''t1'' [''a1''] (Some [Str ''rock''])"

definition pop_two :: track where
  "pop_two = sample_track ''t2'' [''a2''] (Some [Str ''pop''])"

definition rock_three :: track where
  "rock_three = sample_track ''t3'' [''a1''] (Some [Str ''rock''])"

definition both_four :: track where
  "both_four = sample_track ''t4'' [''a1'', ''a2''] (Some [Str ''rock'', Str ''pop''])"

definition blank_five :: track where
  "blank_five = sample_track ''t5'' [''a3''] (Some [Str '' '', Str ''rock''])"

definition bare_six :: track where
  "bare_six = sample_track ''t6'' [''a9''] None"

definition empty_seven :: track where
  "empty_seven = sample_track ''t7'' [''a9''] (Some [])"

definition raw_eight :: track where
  "raw_eight = sample_track ''t8'' [''a1'', ''a2''] None"

definition catalog_one :: "string list js_object" where
  "catalog_one = [(''a1'', [''rock'']), (''a2'', [''pop''])]"

definition catalog_two :: "string list js_object" where
  "catalog_two = [(''a2'', [''pop'']), (''zz'', [''jazz'']), (''a1'', [''rock''])]"

text \<open>A backend that answers every request with the same catalog, and one that is down.\<close>

definition serving :: "string list js_object \<Rightarrow> backend" where
  "serving m = (\<lambda>token artistIds. Inr \<lparr>status = 200, json_body = Some m\<rparr>)"

definition unreachable :: backend where
  "unreachable = (\<lambda>token artistIds. Inl NetworkError)"

section \<open>Properties of the embedding\<close>

subsection \<open>Loops\<close>

text \<open>
  The two nested loops of the categorizer are one loop over the sequence of pushes.
\<close>

lemma for_each_append:
  "for_each f (xs @ ys) s = (case for_each f xs s of Inl e \<Rightarrow> Inl e | Inr s' \<Rightarrow> for_each f ys s')"
  by (induction xs arbitrary: s) (auto split: sum.splits)

lemma for_each_map: "for_each f (map h xs) s = for_each (\<lambda>x. f (h x)) xs s"
  by (induction xs arbitrary: s) (auto split: sum.splits)

lemma for_each_concat:
  "for_each f (concat (map h xs)) s = for_each (\<lambda>x. for_each f (h x)) xs s"
  by (induction xs arbitrary: s) (auto simp: for_each_append split: sum.splits)

lemma add_push_pair: "add_push (k, t) = (\<lambda>c. add_to_bucket c k t)"
  by (rule ext) (simp add: add_push_def)

lemma categorize_track_keys:
  "categorize_track t c = for_each add_push (map (\<lambda>k. (k, t)) (track_keys t)) c"
  by (simp add: categorize_track_def track_keys_def add_push_pair for_each_map
           split: option.splits list.splits sum.splits)

lemma for_each_categorize_track:
  "for_each categorize_track tracks c = for_each add_push (pushes tracks) c"
proof -
  have "categorize_track = (\<lambda>t. for_each add_push (map (\<lambda>k. (k, t)) (track_keys t)))"
    by (rule ext, rule ext) (rule categorize_track_keys)
  then show ?thesis by (simp add: pushes_def for_each_concat)
qed

subsection \<open>One push\<close>

text \<open>
  A push on an own key appends to its array; on a new key that is not inherited it creates
  the array, last in the object; on an inherited key that is not own it throws.
\<close>

lemma map_of_absent: "k \<notin> set (map fst c) \<Longrightarrow> map_of c k = None"
  by (simp add: map_of_eq_None_iff)

lemma map_of_present: "k \<in> set (map fst c) \<Longrightarrow> \<exists>b. map_of c k = Some b"
  by (cases "map_of c k") (simp_all add: map_of_eq_None_iff)

lemma bucket_absent: "k \<notin> set (map fst c) \<Longrightarrow> bucket c k = []"
  by (simp add: bucket_def map_of_absent)

lemma map_of_push_track:
  "map_of (push_track c key t) k =
     (if k = key then map_option (\<lambda>b. b @ [t]) (map_of c k) else map_of c k)"
  by (induction c) (auto simp: push_track_def)

lemma keys_push_track [simp]: "map fst (push_track c key t) = map fst c"
  by (induction c) (auto simp: push_track_def)

lemma push_track_absent: "key \<notin> set (map fst c) \<Longrightarrow> push_track c key t = c"
  by (induction c) (auto simp: push_track_def)

lemma add_to_bucket_cases:
  "add_to_bucket c key t =
     (if key \<in> set (map fst c) then Inr (push_track c key t)
      else if key \<in> set object_prototype_names then Inl TypeError
      else Inr (c @ [(key, [t])]))"
proof (cases "key \<in> set (map fst c)")
  case True
  from map_of_present [OF True] obtain b where "map_of c key = Some b" ..
  with True show ?thesis by (simp add: add_to_bucket_def get_property_def)
next
  case False
  then have "map_of c key = None" by (rule map_of_absent)
  moreover have "push_track (c @ [(key, [])]) key t = c @ [(key, [t])]"
    using False by (simp add: push_track_def push_track_absent [unfolded push_track_def])
  ultimately show ?thesis using False
    by (simp add: add_to_bucket_def get_property_def set_property_def)
qed

lemma add_to_bucket_keys:
  "add_to_bucket c key t = Inr c' \<Longrightarrow> map fst c' = set_add key (map fst c)"
  by (auto simp: add_to_bucket_cases set_add_def split: if_splits)

lemma bucket_push_track:
  "key \<in> set (map fst c) \<Longrightarrow>
     bucket (push_track c key t) k = bucket c k @ (if k = key then [t] else [])"
proof -
  assume "key \<in> set (map fst c)"
  from map_of_present [OF this] obtain b where "map_of c key = Some b" ..
  then show ?thesis by (simp add: bucket_def map_of_push_track)
qed

lemma bucket_append_new:
  "key \<notin> set (map fst c) \<Longrightarrow>
     bucket (c @ [(key, b)]) k = (if k = key then b else bucket c k)"
proof -
  assume "key \<notin> set (map fst c)"
  then have "map_of c key = None" by (rule map_of_absent)
  then show ?thesis
    by (cases "map_of c k") (auto simp add: bucket_def map_of_append map_add_def)
qed

lemma add_to_bucket_bucket:
  "add_to_bucket c key t = Inr c' \<Longrightarrow>
     bucket c' k = bucket c k @ (if k = key then [t] else [])"
proof (cases "key \<in> set (map fst c)")
  case True
  assume "add_to_bucket c key t = Inr c'"
  with True have "c' = push_track c key t" by (simp add: add_to_bucket_cases)
  with True show ?thesis by (simp add: bucket_push_track)
next
  case False
  assume "add_to_bucket c key t = Inr c'"
  with False have c': "c' = c @ [(key, [t])]"
    by (simp add: add_to_bucket_cases split: if_splits)
  from False have "bucket c key = []" by (rule bucket_absent)
  with False c' show ?thesis by (simp add: bucket_append_new)
qed

subsection \<open>A sequence of pushes\<close>

text \<open>
  A sequence that runs through creates the keys in the order of their first use and leaves
  under each key the tracks pushed there, in the order of the pushes. It runs through
  when every key is safe, and only then if the object it starts from owns no inherited
  name.
\<close>

lemma add_push_keys: "add_push p c = Inr c' \<Longrightarrow> map fst c' = set_add (fst p) (map fst c)"
  by (simp add: add_push_def add_to_bucket_keys)

lemma add_push_bucket:
  "add_push p c = Inr c' \<Longrightarrow> bucket c' k = bucket c k @ (if k = fst p then [snd p] else [])"
  by (simp add: add_push_def add_to_bucket_bucket)

lemma for_each_add_push_keys:
  "for_each add_push ps c = Inr c' \<Longrightarrow> map fst c' = fold set_add (map fst ps) (map fst c)"
proof (induction ps arbitrary: c)
  case Nil
  then show ?case by simp
next
  case (Cons p ps)
  then obtain c1 where 1: "add_push p c = Inr c1" and 2: "for_each add_push ps c1 = Inr c'"
    by (auto split: sum.splits)
  from Cons.IH [OF 2] add_push_keys [OF 1] show ?case by simp
qed

lemma for_each_add_push_bucket:
  "for_each add_push ps c = Inr c' \<Longrightarrow>
     bucket c' k = bucket c k @ map snd (filter (\<lambda>p. fst p = k) ps)"
proof (induction ps arbitrary: c)
  case Nil
  then show ?case by simp
next
  case (Cons p ps)
  then obtain c1 where 1: "add_push p c = Inr c1" and 2: "for_each add_push ps c1 = Inr c'"
    by (auto split: sum.splits)
  from Cons.IH [OF 2] add_push_bucket [OF 1, of k] show ?case by simp
qed

lemma add_push_safe:
  "safe_key (fst p) \<Longrightarrow> \<exists>c'. add_push p c = Inr c'"
  by (simp add: add_push_def add_to_bucket_cases safe_key_def)

lemma for_each_add_push_safe:
  "list_all (\<lambda>p. safe_key (fst p)) ps \<Longrightarrow> \<exists>c'. for_each add_push ps c = Inr c'"
proof (induction ps arbitrary: c)
  case Nil
  then show ?case by simp
next
  case (Cons p ps)
  then obtain c1 where "add_push p c = Inr c1" using add_push_safe [of p c] by auto
  moreover from Cons obtain c' where "for_each add_push ps c1 = Inr c'" by auto
  ultimately show ?case by simp
qed

lemma add_push_Inr_safe:
  "add_push p c = Inr c' \<Longrightarrow> list_all safe_key (map fst c) \<Longrightarrow>
     safe_key (fst p) \<and> list_all safe_key (map fst c')"
proof -
  assume ok: "add_push p c = Inr c'" and safe: "list_all safe_key (map fst c)"
  have "safe_key (fst p)"
  proof (cases "fst p \<in> set (map fst c)")
    case True
    with safe show ?thesis unfolding list_all_iff by blast
  next
    case False
    with ok show ?thesis
      by (simp add: add_push_def add_to_bucket_cases safe_key_def split: if_splits)
  qed
  moreover from add_push_keys [OF ok] have "set (map fst c') \<subseteq> insert (fst p) (set (map fst c))"
    by (auto simp: set_add_def split: if_splits)
  ultimately show ?thesis using safe unfolding list_all_iff by blast
qed

lemma for_each_add_push_Inr_safe:
  "for_each add_push ps c = Inr c' \<Longrightarrow> list_all safe_key (map fst c) \<Longrightarrow>
     list_all (\<lambda>p. safe_key (fst p)) ps"
proof (induction ps arbitrary: c)
  case Nil
  then show ?case by simp
next
  case (Cons p ps)
  then obtain c1 where 1: "add_push p c = Inr c1" and 2: "for_each add_push ps c1 = Inr c'"
    by (auto split: sum.splits)
  from add_push_Inr_safe [OF 1 Cons.prems(2)] Cons.IH [OF 2] show ?case by simp
qed

subsection \<open>Key order and the sorted copy\<close>

text \<open>
  Copying distinct keys into a fresh object creates them in the order given, so the
  returned object has the sorted keys as its creation order and the arrays unchanged.
\<close>

lemma set_fold_set_add: "set (fold set_add xs acc) = set xs \<union> set acc"
  by (induction xs arbitrary: acc) (auto simp: set_add_def)

lemma distinct_fold_set_add: "distinct acc \<Longrightarrow> distinct (fold set_add xs acc)"
  by (induction xs arbitrary: acc) (auto simp: set_add_def)

lemma fold_set_property:
  "distinct ks \<Longrightarrow> set ks \<inter> set (map fst acc) = {} \<Longrightarrow>
     fold (\<lambda>g s. set_property s g (f g)) ks acc = acc @ map (\<lambda>g. (g, f g)) ks"
proof (induction ks arbitrary: acc)
  case Nil
  then show ?case by simp
next
  case (Cons k ks)
  from Cons.prems have new: "k \<notin> set (map fst acc)" by auto
  then have step: "set_property acc k (f k) = acc @ [(k, f k)]"
    by (simp add: set_property_def)
  from Cons.prems have "distinct ks" and "set ks \<inter> set (map fst (acc @ [(k, f k)])) = {}"
    by auto
  from Cons.IH [OF this] step show ?case by simp
qed

lemma mset_object_keys: "mset (object_keys obj) = mset (map fst obj)"
  by (simp add: object_keys_def enumerate_keys_def)

lemma set_object_keys: "set (object_keys obj) = set (map fst obj)"
  by (auto simp: object_keys_def enumerate_keys_def)

lemma distinct_object_keys: "distinct (map fst obj) \<Longrightarrow> distinct (object_keys obj)"
  by (metis mset_object_keys mset_eq_imp_distinct_iff)

lemma sort_categories_eq:
  "distinct (map fst c) \<Longrightarrow>
     sort_categories c = map (\<lambda>g. (g, bucket c g)) (sort_key (by_size c) (object_keys c))"
proof -
  assume "distinct (map fst c)"
  then have "distinct (sort_key (by_size c) (object_keys c))"
    by (simp add: distinct_object_keys)
  from fold_set_property [OF this, of "[]" "bucket c"] show ?thesis
    by (simp add: sort_categories_def)
qed

lemma keys_sort_categories:
  "distinct (map fst c) \<Longrightarrow> map fst (sort_categories c) = sort_key (by_size c) (object_keys c)"
  by (simp add: sort_categories_eq comp_def)

lemma bucket_map_keys:
  "bucket (map (\<lambda>g. (g, f g)) ks) k = (if k \<in> set ks then f k else [])"
  by (induction ks) (auto simp: bucket_def)

lemma bucket_sort_categories:
  "distinct (map fst c) \<Longrightarrow> bucket (sort_categories c) k = bucket c k"
  by (simp add: sort_categories_eq bucket_map_keys set_object_keys bucket_absent)

lemma object_keys_enumerate: "object_keys obj = enumerate_keys (map fst obj)"
  by (simp add: object_keys_def)

subsection \<open>The result of a run, read off the input\<close>

lemma categorized_state:
  assumes "for_each categorize_track tracks [] = Inr c"
  shows "map fst c = first_seen tracks"
    and "distinct (map fst c)"
    and "bucket c k = bucket_of tracks k"
    and "list_all (\<lambda>p. safe_key (fst p)) (pushes tracks)"
proof -
  from assms have run: "for_each add_push (pushes tracks) [] = Inr c"
    by (simp add: for_each_categorize_track)
  from for_each_add_push_keys [OF run] show keys: "map fst c = first_seen tracks"
    by (simp add: first_seen_def new_Set_def)
  from for_each_add_push_keys [OF run] distinct_fold_set_add [of "[]"]
  show "distinct (map fst c)" by simp
  from for_each_add_push_bucket [OF run, of k] show "bucket c k = bucket_of tracks k"
    by (simp add: bucket_of_def bucket_def)
  from for_each_add_push_Inr_safe [OF run] show "list_all (\<lambda>p. safe_key (fst p)) (pushes tracks)"
    by simp
qed

lemma categorize_Inr_state:
  "categorizeTracksByGenre tracks = Inr result \<Longrightarrow>
     \<exists>c. for_each categorize_track tracks [] = Inr c \<and> result = sort_categories c"
  by (auto simp: categorizeTracksByGenre_def split: sum.splits)

lemma result_bucket:
  assumes "categorizeTracksByGenre tracks = Inr result"
  shows "bucket result k = bucket_of tracks k"
proof -
  from categorize_Inr_state [OF assms] obtain c
    where c: "for_each categorize_track tracks [] = Inr c" and r: "result = sort_categories c"
    by auto
  from categorized_state(2,3) [OF c] r show ?thesis
    by (simp add: bucket_sort_categories)
qed

lemma result_keys:
  assumes "categorizeTracksByGenre tracks = Inr result"
  shows "map fst result = sort_key (size_key tracks) (enumerate_keys (first_seen tracks))"
    and "distinct (map fst result)"
proof -
  from categorize_Inr_state [OF assms] obtain c
    where c: "for_each categorize_track tracks [] = Inr c" and r: "result = sort_categories c"
    by auto
  note st = categorized_state [OF c]
  have "by_size c = size_key tracks"
    by (rule ext) (simp add: by_size_def size_key_def st(3))
  with st(1,2) r show "map fst result = sort_key (size_key tracks) (enumerate_keys (first_seen tracks))"
    by (simp add: keys_sort_categories object_keys_enumerate)
  from st(2) r show "distinct (map fst result)"
    by (simp add: keys_sort_categories distinct_object_keys)
qed

lemma set_enumerate_keys: "set (enumerate_keys ks) = set ks"
  by (auto simp: enumerate_keys_def)

lemma result_safe:
  assumes "categorizeTracksByGenre tracks = Inr result"
  shows "list_all (\<lambda>p. safe_key (fst p)) (pushes tracks)"
proof -
  from categorize_Inr_state [OF assms] obtain c
    where c: "for_each categorize_track tracks [] = Inr c" by auto
  from categorized_state(4) [OF c] show ?thesis .
qed

lemma result_exists:
  assumes "list_all (\<lambda>p. safe_key (fst p)) (pushes tracks)"
  shows "\<exists>result. categorizeTracksByGenre tracks = Inr result"
proof -
  from for_each_add_push_safe [OF assms, of "[]"] obtain c
    where "for_each add_push (pushes tracks) [] = Inr c" by auto
  then show ?thesis
    by (simp add: categorizeTracksByGenre_def for_each_categorize_track)
qed

subsection \<open>Buckets and keys in terms of the tracks\<close>

lemma filter_key_pairs:
  "map snd (filter (\<lambda>p. fst p = k) (map (\<lambda>k'. (k', t)) ks)) = replicate (count_list ks k) t"
  by (induction ks) auto

lemma bucket_of_replicate:
  "bucket_of tracks k = concat (map (\<lambda>t. replicate (count_list (track_keys t) k) t) tracks)"
  by (induction tracks) (simp_all add: bucket_of_def pushes_def filter_key_pairs)

lemma distinct_count_list_one:
  "distinct ks \<Longrightarrow> count_list ks k = (if k \<in> set ks then 1 else 0)"
  by (induction ks) auto

lemma bucket_of_filter:
  "list_all (\<lambda>t. distinct (track_keys t)) tracks \<Longrightarrow>
     bucket_of tracks k = filter (\<lambda>t. k \<in> set (track_keys t)) tracks"
proof (induction tracks)
  case Nil
  then show ?case by (simp add: bucket_of_replicate)
next
  case (Cons t ts)
  then have "count_list (track_keys t) k = (if k \<in> set (track_keys t) then 1 else 0)"
    by (simp add: distinct_count_list_one)
  with Cons show ?case by (simp add: bucket_of_replicate)
qed

lemma set_bucket_of: "set (bucket_of tracks k) = {t \<in> set tracks. k \<in> set (track_keys t)}"
proof -
  have "\<And>ks. (0 < count_list ks k) = (k \<in> set ks)"
    using count_list_0_iff [of _ k] by (simp add: neq0_conv [symmetric] del: neq0_conv)
  then show ?thesis by (auto simp: bucket_of_replicate)
qed

lemma set_pushes: "set (pushes tracks) = {(k, t). t \<in> set tracks \<and> k \<in> set (track_keys t)}"
  by (auto simp: pushes_def)

lemma set_keys_pushes: "fst ` set (pushes tracks) = (\<Union>t\<in>set tracks. set (track_keys t))"
  by (force simp: set_pushes)

lemma result_key_set:
  assumes "categorizeTracksByGenre tracks = Inr result"
  shows "set (object_keys result) = (\<Union>t\<in>set tracks. set (track_keys t))"
  using result_keys(1) [OF assms]
  by (simp add: set_object_keys set_enumerate_keys first_seen_def new_Set_def set_fold_set_add
        set_keys_pushes)

lemma safe_pushes:
  "list_all (\<lambda>p. safe_key (fst p)) (pushes tracks) =
     list_all (\<lambda>t. list_all safe_key (track_keys t)) tracks"
  by (auto simp: pushes_def list_all_iff)

lemma track_keys_nonempty: "track_keys t \<noteq> []"
  by (simp add: track_keys_def split: option.splits list.splits)

lemma length_track_keys:
  "length (track_keys t) = max 1 (case genres t of None \<Rightarrow> 0 | Some gs \<Rightarrow> length gs)"
  by (simp add: track_keys_def split: option.splits list.splits)

lemma length_pushes: "length (pushes tracks) = sum_list (map (\<lambda>t. length (track_keys t)) tracks)"
  by (induction tracks) (simp_all add: pushes_def)

subsection \<open>The total length of the buckets\<close>

lemma count_by_key:
  "distinct ks \<Longrightarrow> set (map fst ps) \<subseteq> set ks \<Longrightarrow>
     sum_list (map (\<lambda>k. length (filter (\<lambda>p. fst p = k) ps)) ks) = length ps"
proof (induction ps)
  case Nil
  then show ?case by simp
next
  case (Cons p ps)
  then have mem: "fst p \<in> set ks" and rest: "set (map fst ps) \<subseteq> set ks" by auto
  have "sum_list (map (\<lambda>k. length (filter (\<lambda>q. fst q = k) (p # ps))) ks)
      = sum_list (map (\<lambda>k. (if fst p = k then 1 else 0) + length (filter (\<lambda>q. fst q = k) ps)) ks)"
    by (rule arg_cong [where f = sum_list]) (rule map_cong, simp_all)
  also have "\<dots> = sum_list (map (\<lambda>k. if fst p = k then 1 else 0) ks)
                 + sum_list (map (\<lambda>k. length (filter (\<lambda>q. fst q = k) ps)) ks)"
    by (simp add: sum_list_addf)
  also have "sum_list (map (\<lambda>k. if fst p = k then 1 else 0) ks) = (1::nat)"
    using Cons.prems(1) mem by (induction ks) auto
  finally show ?case using Cons.IH [OF Cons.prems(1) rest] by simp
qed

lemma result_total_length:
  assumes "categorizeTracksByGenre tracks = Inr result"
  shows "sum_list (map (\<lambda>(g, b). length b) result) = length (pushes tracks)"
proof -
  from categorize_Inr_state [OF assms] obtain c
    where c: "for_each categorize_track tracks [] = Inr c" and r: "result = sort_categories c"
    by auto
  note st = categorized_state [OF c]
  let ?n = "\<lambda>k. length (filter (\<lambda>p. fst p = k) (pushes tracks))"
  let ?ks = "sort_key (by_size c) (object_keys c)"
  have "sum_list (map (\<lambda>(g, b). length b) result) = sum_list (map ?n ?ks)"
    using st(2) r by (simp add: sort_categories_eq comp_def st(3) bucket_of_def)
  also have "\<dots> = length (pushes tracks)"
  proof (rule count_by_key)
    show "distinct ?ks" using st(2) by (simp add: distinct_object_keys)
    show "set (map fst (pushes tracks)) \<subseteq> set ?ks"
      using st(1) by (simp add: set_object_keys first_seen_def new_Set_def set_fold_set_add)
  qed
  finally show ?thesis .
qed

subsection \<open>The enricher\<close>

lemma fetchArtistGenres_fails_iff:
  "(\<exists>e. fetchArtistGenres fetch token ids = Inl e) =
     (case fetch token ids of Inl e \<Rightarrow> True | Inr r \<Rightarrow> json_body r = None)"
  by (auto simp: fetchArtistGenres_def split: sum.splits option.splits)

lemma enrich_track_cong:
  "list_all (\<lambda>a. get_property m1 (artist_id a) = get_property m2 (artist_id a)) (artists t) \<Longrightarrow>
     enrich_track m1 t = enrich_track m2 t"
proof -
  assume "list_all (\<lambda>a. get_property m1 (artist_id a) = get_property m2 (artist_id a)) (artists t)"
  then have "map (artist_genres m1) (artists t) = map (artist_genres m2) (artists t)"
    by (simp add: list_all_iff artist_genres_def)
  then show ?thesis by (simp only: enrich_track_def)
qed

subsection \<open>When the categorizer returns\<close>

text \<open>
  The categorizer returns a result exactly when no track is filed under an inherited
  name; the buckets of a result hold, between them, every track of the input.
\<close>

lemma categorize_returns_iff:
  "(\<exists>result. categorizeTracksByGenre tracks = Inr result) =
     list_all (\<lambda>t. list_all safe_key (track_keys t)) tracks"
  using result_safe result_exists by (auto simp: safe_pushes [symmetric])

lemma set_flattened_result:
  assumes "categorizeTracksByGenre tracks = Inr result"
  shows "set (concat (map snd (object_entries result))) = set tracks"
proof
  show "set (concat (map snd (object_entries result))) \<subseteq> set tracks"
    by (auto simp: object_entries_def result_bucket [OF assms] set_bucket_of)
  show "set tracks \<subseteq> set (concat (map snd (object_entries result)))"
  proof
    fix t assume t: "t \<in> set tracks"
    obtain k where k: "k \<in> set (track_keys t)"
      using track_keys_nonempty [of t] by (cases "track_keys t") auto
    with t have "k \<in> set (object_keys result)"
      by (auto simp: result_key_set [OF assms])
    moreover from t k have "t \<in> set (bucket result k)"
      by (simp add: result_bucket [OF assms] set_bucket_of)
    ultimately show "t \<in> set (concat (map snd (object_entries result)))"
      by (auto simp: object_entries_def)
  qed
qed

subsection \<open>Blank labels and the reserved label\<close>

lemma blank_safe: "is_blank g \<Longrightarrow> safe_key g"
  by (auto simp: is_blank_def safe_key_def object_prototype_names_def is_whitespace_def)

lemma blank_not_uncategorized: "is_blank g \<Longrightarrow> g \<noteq> ''Uncategorized''"
  by (auto simp: is_blank_def is_whitespace_def)

lemma blank_key_is_label: "is_blank g \<Longrightarrow> (to_property_key v = g) = (v = Str g)"
  by (cases v) (auto simp: to_property_key_def is_blank_def is_whitespace_def)

lemma uncategorized_key_is_label:
  "(to_property_key v = ''Uncategorized'') = (v = Str ''Uncategorized'')"
  by (cases v) (auto simp: to_property_key_def)

lemma track_keys_genre_list:
  "track_keys t = (if genre_list t = [] then [''Uncategorized''] else map to_property_key (genre_list t))"
  by (simp add: track_keys_def genre_list_def split: option.splits list.splits)

lemma count_list_map_key:
  "(\<And>v. (to_property_key v = g) = (v = Str g)) \<Longrightarrow>
     count_list (map to_property_key gs) g = count_list gs (Str g)"
  by (induction gs) auto

lemma count_blank_key:
  "is_blank g \<Longrightarrow> count_list (track_keys t) g = count_list (genre_list t) (Str g)"
proof -
  assume blank: "is_blank g"
  then have "''Uncategorized'' \<noteq> g" using blank_not_uncategorized by blast
  then show ?thesis
    by (simp add: track_keys_genre_list count_list_map_key blank_key_is_label [OF blank])
qed

lemma add_to_bucket_safe:
  "safe_key key \<Longrightarrow>
     \<exists>c'. add_to_bucket c key t = Inr c' \<and> bucket c' key = bucket c key @ [t]
        \<and> (\<forall>k. k \<noteq> key \<longrightarrow> bucket c' k = bucket c k)"
proof -
  assume "safe_key key"
  then obtain c' where c': "add_to_bucket c key t = Inr c'"
    using add_push_safe [of "(key, t)" c] by (auto simp: add_push_def)
  from add_to_bucket_bucket [OF c'] c' show ?thesis by simp
qed

subsection \<open>Tracks without genres\<close>

lemma uncategorized_safe: "safe_key ''Uncategorized''"
  by (simp add: safe_key_def object_prototype_names_def)

lemma categorize_unenriched:
  "unenriched t \<Longrightarrow> categorize_track t c = add_to_bucket c ''Uncategorized'' t"
  by (auto simp: unenriched_def categorize_track_def)

lemma for_each_unenriched:
  "list_all unenriched tracks \<Longrightarrow>
     for_each categorize_track tracks [(''Uncategorized'', b)] = Inr [(''Uncategorized'', b @ tracks)]"
proof (induction tracks arbitrary: b)
  case Nil
  then show ?case by simp
next
  case (Cons t ts)
  then have "categorize_track t [(''Uncategorized'', b)] = Inr [(''Uncategorized'', b @ [t])]"
    by (simp add: categorize_unenriched add_to_bucket_cases push_track_def)
  with Cons show ?case by simp
qed

lemma not_index_uncategorized: "\<not> is_array_index ''Uncategorized''"
  by (simp add: is_array_index_def is_digit_def)

lemma sort_single_uncategorized:
  "sort_categories [(''Uncategorized'', b)] = [(''Uncategorized'', b)]"
  by (simp add: sort_categories_def object_keys_def enumerate_keys_def not_index_uncategorized
        set_property_def bucket_def)

lemma categorize_all_unenriched:
  "list_all unenriched tracks \<Longrightarrow>
     categorizeTracksByGenre tracks
       = Inr (if tracks = [] then [] else [(''Uncategorized'', tracks)])"
proof (cases tracks)
  case Nil
  then show ?thesis
    by (simp add: categorizeTracksByGenre_def sort_categories_def object_keys_def
          enumerate_keys_def)
next
  case (Cons t ts)
  assume "list_all unenriched tracks"
  with Cons have t: "unenriched t" and ts: "list_all unenriched ts" by simp_all
  have "categorize_track t [] = Inr [(''Uncategorized'', [t])]"
    using uncategorized_safe
    by (simp add: categorize_unenriched [OF t] add_to_bucket_cases safe_key_def)
  with for_each_unenriched [OF ts, of "[t]"] Cons show ?thesis
    by (simp add: categorizeTracksByGenre_def sort_single_uncategorized)
qed

subsection \<open>Bucket lengths and genre counts\<close>

lemma bucket_lengths_sum:
  assumes "categorizeTracksByGenre tracks = Inr result"
  shows "sum_list (map (\<lambda>(g, b). length b) result)
           = sum_list (map (\<lambda>t. max 1 (length (genre_list t))) tracks)"
proof -
  have "\<And>t. length (track_keys t) = max 1 (length (genre_list t))"
    by (simp add: length_track_keys genre_list_def split: option.splits)
  then show ?thesis
    by (simp add: result_total_length [OF assms] length_pushes)
qed

subsection \<open>Key order without array indices\<close>

lemma enumerate_keys_plain:
  "list_all (\<lambda>k. \<not> is_array_index k) ks \<Longrightarrow> enumerate_keys ks = ks"
  by (simp add: enumerate_keys_def list_all_iff)

lemma order_without_index_labels:
  assumes "categorizeTracksByGenre tracks = Inr result"
    and "list_all (\<lambda>k. \<not> is_array_index k) (first_seen tracks)"
  shows "object_keys result = sort_key (size_key tracks) (first_seen tracks)"
proof -
  have keys: "map fst result = sort_key (size_key tracks) (first_seen tracks)"
    using result_keys(1) [OF assms(1)] assms(2) by (simp add: enumerate_keys_plain)
  from assms(2) have "list_all (\<lambda>k. \<not> is_array_index k) (sort_key (size_key tracks) (first_seen tracks))"
    by (simp add: list_all_iff)
  with keys show ?thesis by (simp add: object_keys_enumerate enumerate_keys_plain)
qed

subsection \<open>Genre lists of plain artists\<close>

lemma fold_set_add_map:
  "inj f \<Longrightarrow> fold set_add (map f xs) (map f acc) = map f (fold set_add xs acc)"
proof (induction xs arbitrary: acc)
  case Nil
  then show ?case by simp
next
  case (Cons x xs)
  then have "set_add (f x) (map f acc) = map f (set_add x acc)"
    by (auto simp: set_add_def inj_def)
  with Cons show ?case by simp
qed

lemma new_Set_map_Str: "new_Set (map Str xs) = map Str (new_Set xs)"
  using fold_set_add_map [of Str xs "[]"] by (simp add: new_Set_def inj_def)

lemma artist_genres_plain:
  "plain_artist m a \<Longrightarrow> artist_genres m a = map Str (bucket m (artist_id a))"
proof (cases "artist_id a \<in> set (map fst m)")
  case True
  from map_of_present [OF True] obtain gs where "map_of m (artist_id a) = Some gs" ..
  then show ?thesis by (simp add: artist_genres_def get_property_def bucket_def)
next
  case False
  assume "plain_artist m a"
  with False have "artist_id a \<notin> set object_prototype_names" by (simp add: plain_artist_def)
  with map_of_absent [OF False] show ?thesis
    by (simp add: artist_genres_def get_property_def bucket_def)
qed

lemma enrich_track_plain:
  assumes "list_all (plain_artist m) (artists t)"
  shows "genres (enrich_track m t)
           = Some (map Str (new_Set (concat (map (\<lambda>a. bucket m (artist_id a)) (artists t)))))"
proof -
  from assms have "map (artist_genres m) (artists t)
      = map (\<lambda>a. map Str (bucket m (artist_id a))) (artists t)"
    by (simp add: list_all_iff artist_genres_plain)
  then have "concat (map (artist_genres m) (artists t))
      = map Str (concat (map (\<lambda>a. bucket m (artist_id a)) (artists t)))"
    by (simp only: map_concat map_map comp_def)
  then show ?thesis by (simp add: enrich_track_def new_Set_map_Str)
qed

subsection \<open>The scenarios of the specification\<close>

text \<open>
  Scenarios A to D of the specification, run through the embedding: one artist with one
  genre; two artists with one genre each; an artist the catalog does not know; two tracks
  under one label and one under another. The last two lemmas: equal sizes keep the order
  of first use, not the alphabet; and the status of the response is never read.
\<close>

lemma scenario_A:
  "categorizeTracks (serving [(''a1'', [''rock''])]) ''token'' [sample_track ''t1'' [''a1''] None]
     = Inr [(''rock'', [rock_one])]"
  by code_simp

lemma scenario_B:
  "categorizeTracks (serving catalog_one) ''token'' [sample_track ''t4'' [''a1'', ''a2''] None]
     = Inr [(''rock'', [both_four]), (''pop'', [both_four])]"
  by code_simp

lemma scenario_C:
  "categorizeTracks (serving []) ''token'' [bare_six]
     = Inr [(''Uncategorized'', [empty_seven\<lparr>track_id := ''t6'', track_name := ''t6''\<rparr>])]"
  by code_simp

lemma scenario_D:
  "map_sum id object_keys (categorizeTracksByGenre [pop_two, rock_one, rock_three])
     = Inr [''rock'', ''pop'']"
  by code_simp

lemma equal_sizes_keep_first_use:
  "map_sum id object_keys (categorizeTracksByGenre [rock_one, pop_two]) = Inr [''rock'', ''pop'']"
  by code_simp

lemma status_is_not_read:
  "fetchArtistGenres (\<lambda>token artistIds. Inr \<lparr>status = n, json_body = Some m\<rparr>) token ids = Inr m"
  by (simp add: fetchArtistGenres_def)

text \<open>
  The labels and identifiers at which plain objects misbehave, reached through the
  catalog: a genre that is an inherited name ends the run with an exception; a genre that
  is an array index comes first whatever its size; an unknown artist whose identifier is an
  inherited name gives its track a bucket other than \<^verbatim>\<open>Uncategorized\<close>.
\<close>

lemma inherited_label_from_catalog:
  "categorizeTracks (serving [(''a1'', [''constructor''])]) ''token''
     [sample_track ''t1'' [''a1''] None] = Inl TypeError"
  by code_simp

lemma index_label_from_catalog:
  "map_sum id object_keys
     (categorizeTracks (serving [(''a1'', [''rock'']), (''a2'', [''7''])]) ''token''
        [sample_track ''t1'' [''a1''] None, sample_track ''t2'' [''a1''] None,
         sample_track ''t3'' [''a2''] None])
   = Inr [''7'', ''rock'']"
  by code_simp

lemma inherited_artist_id_bucket:
  "map_sum id object_keys
     (categorizeTracks (serving []) ''token'' [sample_track ''t1'' [''constructor''] None])
   = Inr [''function Object() { [native code] }'']"
  by code_simp

section \<open>The claims\<close>

text \<open>
  C1. Claim: for every list of enriched tracks, the lengths of the returned buckets add up
  to the sum over the tracks of max(1, number of genres); a track with N genres is
  appended to exactly N buckets and a track without genres once, to \<^verbatim>\<open>Uncategorized\<close>.
  The function does not return for every list: a track whose only genre label is
  \<^verbatim>\<open>constructor\<close> is appended to no bucket, the read \<^verbatim>\<open>categorized[genre]\<close> finds the
  inherited member, which has no \<^verbatim>\<open>push\<close>, and the call throws. (For the runs that
  return, \<open>bucket_lengths_sum\<close> gives the equation of the claim.)
\<close>

theorem inherited_label_throws:
  "categorizeTracksByGenre [sample_track ''t1'' [''a1''] (Some [Str ''constructor''])] = Inl TypeError"
  by code_simp

text \<open>
  C2. Claim: the returned object lists its labels by descending bucket size, ties in the
  order of first creation. The sorted keys are copied into a plain object, and an object
  enumerates a key that is an array index before all others: with two tracks under
  \<^verbatim>\<open>rock\<close> and one under \<^verbatim>\<open>7\<close> the caller sees the bucket of size one first. (When no
  key is an array index, \<open>order_without_index_labels\<close> gives the order of the claim.)
\<close>

theorem index_label_breaks_size_order:
  "map_sum id (\<lambda>result. map (\<lambda>(g, b). (g, length b)) (object_entries result))
     (categorizeTracksByGenre
        [rock_one, rock_three, sample_track ''t9'' [''a2''] (Some [Str ''7''])])
   = Inr [(''7'', 1), (''rock'', 2)]"
  by code_simp

text \<open>
  C3. Claim: for every track list and every catalog, the genre list of a track is the
  deduplicated union of the labels of its artists, in first-seen order, and an artist
  identifier absent from the catalog contributes nothing. The read
  \<^verbatim>\<open>artistGenreMap[artist.id]\<close> of an absent identifier that names a member of
  \<^verbatim>\<open>Object.prototype\<close> is truthy, so the track gets that member as an item of its genre
  list. (For the other identifiers, \<open>enrich_track_plain\<close> gives the list of the claim.)
\<close>

theorem inherited_artist_id_contributes:
  "enrichTracksWithGenres (serving []) ''token''
     [sample_track ''t1'' [''constructor''] None]
   = Inr [sample_track ''t1'' [''constructor''] (Some [ProtoMember ''constructor''])]"
  by code_simp

text \<open>
  C4. If \<^verbatim>\<open>fetchArtistGenres\<close> fails, the enricher fails with the same error and so does
  the run of enricher and categorizer; and whenever that run returns a result, the lookup
  had returned a catalog, every track was enriched from that one catalog, and the result is
  the categorization of exactly those tracks.
\<close>

theorem catalog_failure_fails_whole_run:
  "(fetchArtistGenres fetch token (all_artist_ids tracks) = Inl e \<longrightarrow>
      enrichTracksWithGenres fetch token tracks = Inl e \<and>
      categorizeTracks fetch token tracks = Inl e)
   \<and> (\<forall>result. categorizeTracks fetch token tracks = Inr result \<longrightarrow>
        (\<exists>m. fetchArtistGenres fetch token (all_artist_ids tracks) = Inr m \<and>
             enrichTracksWithGenres fetch token tracks = Inr (map (enrich_track m) tracks) \<and>
             categorizeTracksByGenre (map (enrich_track m) tracks) = Inr result))"
  by (auto simp: enrichTracksWithGenres_def categorizeTracks_def Let_def split: sum.splits)

theorem catalog_failure_fails_whole_run_witness:
  "fetchArtistGenres unreachable ''token'' (all_artist_ids [raw_eight]) = Inl NetworkError
   \<and> enrichTracksWithGenres unreachable ''token'' [raw_eight] = Inl NetworkError
   \<and> categorizeTracks unreachable ''token'' [raw_eight] = Inl NetworkError
   \<and> categorizeTracks (serving catalog_one) ''token'' [raw_eight]
       = Inr [(''rock'', [both_four\<lparr>track_id := ''t8'', track_name := ''t8''\<rparr>]),
              (''pop'', [both_four\<lparr>track_id := ''t8'', track_name := ''t8''\<rparr>])]
   \<and> (\<exists>m. fetchArtistGenres (serving catalog_one) ''token'' (all_artist_ids [raw_eight]) = Inr m
         \<and> enrichTracksWithGenres (serving catalog_one) ''token'' [raw_eight]
             = Inr (map (enrich_track m) [raw_eight])
         \<and> categorizeTracksByGenre (map (enrich_track m) [raw_eight])
             = Inr [(''rock'', [both_four\<lparr>track_id := ''t8'', track_name := ''t8''\<rparr>]),
                    (''pop'', [both_four\<lparr>track_id := ''t8'', track_name := ''t8''\<rparr>])])"
proof -
  have down: "fetchArtistGenres unreachable ''token'' (all_artist_ids [raw_eight]) = Inl NetworkError"
    by (simp add: fetchArtistGenres_def unreachable_def)
  have up: "categorizeTracks (serving catalog_one) ''token'' [raw_eight]
       = Inr [(''rock'', [both_four\<lparr>track_id := ''t8'', track_name := ''t8''\<rparr>]),
              (''pop'', [both_four\<lparr>track_id := ''t8'', track_name := ''t8''\<rparr>])]"
    by code_simp
  from catalog_failure_fails_whole_run [of unreachable "''token''" "[raw_eight]" NetworkError] down
  have "enrichTracksWithGenres unreachable ''token'' [raw_eight] = Inl NetworkError
     \<and> categorizeTracks unreachable ''token'' [raw_eight] = Inl NetworkError"
    by blast
  moreover
  from catalog_failure_fails_whole_run [of "serving catalog_one" "''token''" "[raw_eight]"] up
  have "\<exists>m. fetchArtistGenres (serving catalog_one) ''token'' (all_artist_ids [raw_eight]) = Inr m
         \<and> enrichTracksWithGenres (serving catalog_one) ''token'' [raw_eight]
             = Inr (map (enrich_track m) [raw_eight])
         \<and> categorizeTracksByGenre (map (enrich_track m) [raw_eight])
             = Inr [(''rock'', [both_four\<lparr>track_id := ''t8'', track_name := ''t8''\<rparr>]),
                    (''pop'', [both_four\<lparr>track_id := ''t8'', track_name := ''t8''\<rparr>])]"
    by blast
  ultimately show ?thesis using down up by blast
qed

text \<open>
  C5. When the lookup returns a catalog the enricher returns a list, and the list it
  returns has the length of the input and holds at every position the input track of
  that position with only the genre field assigned.
\<close>

theorem enrich_changes_only_genres:
  "(\<forall>m. fetchArtistGenres fetch token (all_artist_ids tracks) = Inr m \<longrightarrow>
        (\<exists>enriched. enrichTracksWithGenres fetch token tracks = Inr enriched))
   \<and> (\<forall>enriched. enrichTracksWithGenres fetch token tracks = Inr enriched \<longrightarrow>
        length enriched = length tracks \<and>
        (\<forall>i < length tracks. enriched ! i = (tracks ! i)\<lparr>genres := genres (enriched ! i)\<rparr>))"
  by (auto simp: enrichTracksWithGenres_def enrich_track_def Let_def split: sum.splits)

theorem enrich_changes_only_genres_witness:
  "enrichTracksWithGenres (serving catalog_one) ''token'' [raw_eight, bare_six]
     = Inr [raw_eight\<lparr>genres := Some [Str ''rock'', Str ''pop'']\<rparr>, bare_six\<lparr>genres := Some []\<rparr>]
   \<and> length [raw_eight\<lparr>genres := Some [Str ''rock'', Str ''pop'']\<rparr>, bare_six\<lparr>genres := Some []\<rparr>]
       = length [raw_eight, bare_six]
   \<and> [raw_eight\<lparr>genres := Some [Str ''rock'', Str ''pop'']\<rparr>, bare_six\<lparr>genres := Some []\<rparr>] ! 1
       = ([raw_eight, bare_six] ! 1)\<lparr>genres :=
           genres ([raw_eight\<lparr>genres := Some [Str ''rock'', Str ''pop'']\<rparr>,
                    bare_six\<lparr>genres := Some []\<rparr>] ! 1)\<rparr>"
proof -
  have run: "enrichTracksWithGenres (serving catalog_one) ''token'' [raw_eight, bare_six]
     = Inr [raw_eight\<lparr>genres := Some [Str ''rock'', Str ''pop'']\<rparr>, bare_six\<lparr>genres := Some []\<rparr>]"
    by code_simp
  have pos: "(1::nat) < length [raw_eight, bare_six]" by simp
  from enrich_changes_only_genres [of "serving catalog_one" "''token''" "[raw_eight, bare_six]"]
    run pos
  show ?thesis by blast
qed

text \<open>
  C6. In the result of the categorizer the bucket of every label is the input list with
  each track repeated as often as it carries the label, so the tracks of a bucket stand in
  their input order; when no track carries a label twice, the bucket is the input list
  filtered by the label.
\<close>

theorem bucket_keeps_input_order:
  "categorizeTracksByGenre tracks = Inr result \<Longrightarrow>
     bucket result label
       = concat (map (\<lambda>t. replicate (count_list (track_keys t) label) t) tracks)
     \<and> (list_all (\<lambda>t. distinct (track_keys t)) tracks \<longrightarrow>
          bucket result label = filter (\<lambda>t. label \<in> set (track_keys t)) tracks)"
  by (simp add: result_bucket bucket_of_replicate [symmetric] bucket_of_filter)

theorem bucket_keeps_input_order_witness:
  "categorizeTracksByGenre [rock_one, pop_two, rock_three]
     = Inr [(''rock'', [rock_one, rock_three]), (''pop'', [pop_two])]
   \<and> bucket [(''rock'', [rock_one, rock_three]), (''pop'', [pop_two])] ''rock''
       = concat (map (\<lambda>t. replicate (count_list (track_keys t) ''rock'') t)
           [rock_one, pop_two, rock_three])
   \<and> list_all (\<lambda>t. distinct (track_keys t)) [rock_one, pop_two, rock_three]
   \<and> bucket [(''rock'', [rock_one, rock_three]), (''pop'', [pop_two])] ''rock''
       = filter (\<lambda>t. ''rock'' \<in> set (track_keys t)) [rock_one, pop_two, rock_three]"
proof -
  have run: "categorizeTracksByGenre [rock_one, pop_two, rock_three]
     = Inr [(''rock'', [rock_one, rock_three]), (''pop'', [pop_two])]"
    by code_simp
  have once: "list_all (\<lambda>t. distinct (track_keys t)) [rock_one, pop_two, rock_three]"
    by code_simp
  from bucket_keeps_input_order [OF run, of "''rock''"] once run show ?thesis by blast
qed

text \<open>
  C7. Two runs over the same track list, with any two backends and tokens whose lookups
  return catalogs that answer alike for every artist of the tracks, give the same enriched
  list and the same result or the same error; equal results are equal objects, with the
  same key order and the same order inside every bucket.
\<close>

theorem two_runs_agree:
  "fetchArtistGenres fetch1 token1 (all_artist_ids tracks) = Inr m1 \<Longrightarrow>
   fetchArtistGenres fetch2 token2 (all_artist_ids tracks) = Inr m2 \<Longrightarrow>
   list_all (\<lambda>t. list_all (\<lambda>a. get_property m1 (artist_id a) = get_property m2 (artist_id a))
      (artists t)) tracks \<Longrightarrow>
   enrichTracksWithGenres fetch1 token1 tracks = enrichTracksWithGenres fetch2 token2 tracks \<and>
   categorizeTracks fetch1 token1 tracks = categorizeTracks fetch2 token2 tracks \<and>
   map_sum id object_entries (categorizeTracks fetch1 token1 tracks)
     = map_sum id object_entries (categorizeTracks fetch2 token2 tracks)"
proof -
  assume 1: "fetchArtistGenres fetch1 token1 (all_artist_ids tracks) = Inr m1"
    and 2: "fetchArtistGenres fetch2 token2 (all_artist_ids tracks) = Inr m2"
    and same: "list_all (\<lambda>t. list_all (\<lambda>a. get_property m1 (artist_id a) = get_property m2 (artist_id a))
      (artists t)) tracks"
  from same have "map (enrich_track m1) tracks = map (enrich_track m2) tracks"
    by (simp add: list_all_iff enrich_track_cong)
  with 1 2 have "enrichTracksWithGenres fetch1 token1 tracks = enrichTracksWithGenres fetch2 token2 tracks"
    by (simp add: enrichTracksWithGenres_def)
  then show ?thesis by (simp add: categorizeTracks_def)
qed

theorem two_runs_agree_witness:
  "fetchArtistGenres (serving catalog_one) ''token'' (all_artist_ids [raw_eight, bare_six]) = Inr catalog_one
   \<and> fetchArtistGenres (serving catalog_two) ''other'' (all_artist_ids [raw_eight, bare_six]) = Inr catalog_two
   \<and> list_all (\<lambda>t. list_all (\<lambda>a. get_property catalog_one (artist_id a)
                                   = get_property catalog_two (artist_id a)) (artists t))
        [raw_eight, bare_six]
   \<and> enrichTracksWithGenres (serving catalog_one) ''token'' [raw_eight, bare_six]
       = enrichTracksWithGenres (serving catalog_two) ''other'' [raw_eight, bare_six]
   \<and> categorizeTracks (serving catalog_one) ''token'' [raw_eight, bare_six]
       = categorizeTracks (serving catalog_two) ''other'' [raw_eight, bare_six]
   \<and> map_sum id object_entries (categorizeTracks (serving catalog_one) ''token'' [raw_eight, bare_six])
       = map_sum id object_entries
           (categorizeTracks (serving catalog_two) ''other'' [raw_eight, bare_six])"
proof -
  have 1: "fetchArtistGenres (serving catalog_one) ''token'' (all_artist_ids [raw_eight, bare_six]) = Inr catalog_one"
    by (simp add: fetchArtistGenres_def serving_def)
  have 2: "fetchArtistGenres (serving catalog_two) ''other'' (all_artist_ids [raw_eight, bare_six]) = Inr catalog_two"
    by (simp add: fetchArtistGenres_def serving_def)
  have 3: "list_all (\<lambda>t. list_all (\<lambda>a. get_property catalog_one (artist_id a)
                                   = get_property catalog_two (artist_id a)) (artists t))
        [raw_eight, bare_six]"
    by code_simp
  from two_runs_agree [OF 1 2 3] 1 2 3 show ?thesis by blast
qed

text \<open>
  C8. When the categorizer returns a result for a track list, it also returns one for
  every flat list that holds exactly the tracks of the buckets of that result (their
  concatenation, or their union with every track once, in any order), with the same set of
  labels and, under every label, the same set of tracks.
\<close>

theorem recategorizing_keeps_membership:
  "categorizeTracksByGenre tracks = Inr first \<Longrightarrow>
   set flat = set (concat (map snd (object_entries first))) \<Longrightarrow>
     \<exists>second. categorizeTracksByGenre flat = Inr second
       \<and> set (object_keys second) = set (object_keys first)
       \<and> (\<forall>label. set (bucket second label) = set (bucket first label))"
proof -
  assume first: "categorizeTracksByGenre tracks = Inr first"
    and flat: "set flat = set (concat (map snd (object_entries first)))"
  have same: "set flat = set tracks"
    unfolding flat by (rule set_flattened_result [OF first])
  from first have "list_all (\<lambda>t. list_all safe_key (track_keys t)) tracks"
    using categorize_returns_iff [of tracks] by auto
  with same have "list_all (\<lambda>t. list_all safe_key (track_keys t)) flat"
    unfolding list_all_iff by simp
  then obtain second where second: "categorizeTracksByGenre flat = Inr second"
    using categorize_returns_iff [of flat] by auto
  have "set (object_keys second) = set (object_keys first)"
    by (simp only: result_key_set [OF first] result_key_set [OF second] same)
  moreover have "\<forall>label. set (bucket second label) = set (bucket first label)"
    by (simp only: result_bucket [OF first] result_bucket [OF second] set_bucket_of same)
      simp
  ultimately show ?thesis using second by blast
qed

theorem recategorizing_keeps_membership_witness:
  "categorizeTracksByGenre [both_four, rock_one]
     = Inr [(''rock'', [both_four, rock_one]), (''pop'', [both_four])]
   \<and> set [both_four, rock_one, both_four]
       = set (concat (map snd
           (object_entries [(''rock'', [both_four, rock_one]), (''pop'', [both_four])])))
   \<and> (\<exists>second. categorizeTracksByGenre [both_four, rock_one, both_four] = Inr second
        \<and> set (object_keys second)
            = set (object_keys [(''rock'', [both_four, rock_one]), (''pop'', [both_four])])
        \<and> (\<forall>label. set (bucket second label)
              = set (bucket [(''rock'', [both_four, rock_one]), (''pop'', [both_four])] label)))"
proof -
  have run: "categorizeTracksByGenre [both_four, rock_one]
     = Inr [(''rock'', [both_four, rock_one]), (''pop'', [both_four])]"
    by code_simp
  have "concat (map snd (object_entries [(''rock'', [both_four, rock_one]), (''pop'', [both_four])]))
      = [both_four, rock_one, both_four]"
    by code_simp
  then have flat: "set [both_four, rock_one, both_four]
       = set (concat (map snd
           (object_entries [(''rock'', [both_four, rock_one]), (''pop'', [both_four])])))"
    by (simp only:)
  from recategorizing_keeps_membership [OF run flat] run flat show ?thesis by blast
qed

text \<open>
  C9. For a blank label (empty, or white space only) the push always succeeds and appends
  the track to the bucket keyed by exactly that string, leaving every other bucket as it
  was; in a result, that bucket holds the tracks that carry the label, each as often as it
  carries it, and nothing else; a track that carries it is in that bucket, the label is a
  key of the result, and the track is in the \<^verbatim>\<open>Uncategorized\<close> bucket only if it carries
  the label \<^verbatim>\<open>Uncategorized\<close> as well.
\<close>

theorem blank_label_is_its_own_bucket:
  "is_blank g \<Longrightarrow>
     (\<exists>c'. add_to_bucket c g t = Inr c' \<and> bucket c' g = bucket c g @ [t]
         \<and> (\<forall>k. k \<noteq> g \<longrightarrow> bucket c' k = bucket c k))
   \<and> (\<forall>tracks result. categorizeTracksByGenre tracks = Inr result \<longrightarrow>
         bucket result g
           = concat (map (\<lambda>u. replicate (count_list (genre_list u) (Str g)) u) tracks)
         \<and> (\<forall>u \<in> set tracks. Str g \<in> set (genre_list u) \<longrightarrow>
               g \<in> set (object_keys result) \<and> u \<in> set (bucket result g)
               \<and> (u \<in> set (bucket result ''Uncategorized'') \<longrightarrow>
                    Str ''Uncategorized'' \<in> set (genre_list u))))"
proof (intro conjI allI impI ballI)
  assume "is_blank g"
  then show "\<exists>c'. add_to_bucket c g t = Inr c' \<and> bucket c' g = bucket c g @ [t]
         \<and> (\<forall>k. k \<noteq> g \<longrightarrow> bucket c' k = bucket c k)"
    by (intro add_to_bucket_safe blank_safe)
next
  fix tracks result
  assume blank: "is_blank g" and res: "categorizeTracksByGenre tracks = Inr result"
  show "bucket result g = concat (map (\<lambda>u. replicate (count_list (genre_list u) (Str g)) u) tracks)"
    by (simp add: result_bucket [OF res] bucket_of_replicate count_blank_key [OF blank])
next
  fix tracks result u
  assume blank: "is_blank g" and res: "categorizeTracksByGenre tracks = Inr result"
    and u: "u \<in> set tracks" and carries: "Str g \<in> set (genre_list u)"
  from carries have key: "g \<in> set (track_keys u)"
    using blank_key_is_label [OF blank] by (force simp: track_keys_genre_list)
  with u show "g \<in> set (object_keys result)"
    by (auto simp: result_key_set [OF res])
  from u key show "u \<in> set (bucket result g)"
    by (simp add: result_bucket [OF res] set_bucket_of)
next
  fix tracks result u
  assume res: "categorizeTracksByGenre tracks = Inr result"
    and carries: "Str g \<in> set (genre_list u)"
    and "u \<in> set (bucket result ''Uncategorized'')"
  then have "''Uncategorized'' \<in> set (track_keys u)"
    by (simp add: result_bucket [OF res] set_bucket_of)
  with carries obtain v where "v \<in> set (genre_list u)" and "to_property_key v = ''Uncategorized''"
    by (auto simp: track_keys_genre_list split: if_splits)
  then show "Str ''Uncategorized'' \<in> set (genre_list u)"
    by (simp add: uncategorized_key_is_label)
qed

theorem blank_label_is_its_own_bucket_witness:
  "is_blank '' ''
   \<and> (\<exists>c'. add_to_bucket [(''rock'', [rock_one])] '' '' blank_five = Inr c'
         \<and> bucket c' '' '' = bucket [(''rock'', [rock_one])] '' '' @ [blank_five]
         \<and> (\<forall>k. k \<noteq> '' '' \<longrightarrow> bucket c' k = bucket [(''rock'', [rock_one])] k))
   \<and> categorizeTracksByGenre [rock_one, blank_five, bare_six]
       = Inr [(''rock'', [rock_one, blank_five]), ('' '', [blank_five]), (''Uncategorized'', [bare_six])]
   \<and> bucket [(''rock'', [rock_one, blank_five]), ('' '', [blank_five]), (''Uncategorized'', [bare_six])] '' ''
       = concat (map (\<lambda>u. replicate (count_list (genre_list u) (Str '' '')) u)
           [rock_one, blank_five, bare_six])"
proof -
  have blank: "is_blank '' ''"
    by (simp add: is_blank_def is_whitespace_def)
  have run: "categorizeTracksByGenre [rock_one, blank_five, bare_six]
       = Inr [(''rock'', [rock_one, blank_five]), ('' '', [blank_five]), (''Uncategorized'', [bare_six])]"
    by code_simp
  from blank_label_is_its_own_bucket [OF blank, of "[(''rock'', [rock_one])]" blank_five] run blank
  show ?thesis by blast
qed

text \<open>
  C10. A track whose genre field is missing is handled by the same push as a track with
  the empty genre list: the push to \<^verbatim>\<open>Uncategorized\<close>, which never throws and appends
  the track there and nowhere else. Such a track is in the \<^verbatim>\<open>Uncategorized\<close> bucket of
  every result, and on a list of such tracks the categorizer returns: no bucket for the
  empty list, and otherwise the single bucket \<^verbatim>\<open>Uncategorized\<close> with the whole list.
\<close>

theorem missing_genres_go_to_uncategorized:
  "genres t = None \<or> genres t = Some [] \<Longrightarrow>
     categorize_track t c = add_to_bucket c ''Uncategorized'' t
   \<and> (\<exists>c'. categorize_track t c = Inr c'
         \<and> bucket c' ''Uncategorized'' = bucket c ''Uncategorized'' @ [t]
         \<and> (\<forall>k. k \<noteq> ''Uncategorized'' \<longrightarrow> bucket c' k = bucket c k))
   \<and> (\<forall>tracks result. t \<in> set tracks \<longrightarrow> categorizeTracksByGenre tracks = Inr result \<longrightarrow>
         t \<in> set (bucket result ''Uncategorized''))
   \<and> (\<forall>tracks. list_all (\<lambda>u. genres u = None \<or> genres u = Some []) tracks \<longrightarrow>
         categorizeTracksByGenre tracks
           = Inr (if tracks = [] then [] else [(''Uncategorized'', tracks)]))"
proof (intro conjI allI impI)
  assume "genres t = None \<or> genres t = Some []"
  then have un: "unenriched t" by (simp add: unenriched_def)
  show same: "categorize_track t c = add_to_bucket c ''Uncategorized'' t"
    by (rule categorize_unenriched [OF un])
  show "\<exists>c'. categorize_track t c = Inr c'
         \<and> bucket c' ''Uncategorized'' = bucket c ''Uncategorized'' @ [t]
         \<and> (\<forall>k. k \<noteq> ''Uncategorized'' \<longrightarrow> bucket c' k = bucket c k)"
    unfolding same by (rule add_to_bucket_safe [OF uncategorized_safe])
  fix tracks result
  assume "t \<in> set tracks" and res: "categorizeTracksByGenre tracks = Inr result"
  moreover from un have "track_keys t = [''Uncategorized'']"
    by (auto simp: unenriched_def track_keys_def)
  ultimately show "t \<in> set (bucket result ''Uncategorized'')"
    by (simp add: result_bucket [OF res] set_bucket_of)
next
  fix tracks :: "track list"
  assume "list_all (\<lambda>u. genres u = None \<or> genres u = Some []) tracks"
  then have "list_all unenriched tracks" by (simp add: unenriched_def [abs_def])
  then show "categorizeTracksByGenre tracks
           = Inr (if tracks = [] then [] else [(''Uncategorized'', tracks)])"
    by (rule categorize_all_unenriched)
qed

theorem missing_genres_go_to_uncategorized_witness:
  "(genres bare_six = None \<or> genres bare_six = Some [])
   \<and> categorize_track bare_six [(''rock'', [rock_one])]
       = add_to_bucket [(''rock'', [rock_one])] ''Uncategorized'' bare_six
   \<and> list_all (\<lambda>u. genres u = None \<or> genres u = Some []) [bare_six, empty_seven]
   \<and> categorizeTracksByGenre [bare_six, empty_seven]
       = Inr (if [bare_six, empty_seven] = [] then []
              else [(''Uncategorized'', [bare_six, empty_seven])])"
proof -
  have missing: "genres bare_six = None \<or> genres bare_six = Some []"
    by (simp add: bare_six_def sample_track_def)
  have all: "list_all (\<lambda>u. genres u = None \<or> genres u = Some []) [bare_six, empty_seven]"
    by (simp add: bare_six_def empty_seven_def sample_track_def)
  from missing_genres_go_to_uncategorized [OF missing, of "[(''rock'', [rock_one])]"] missing all
  show ?thesis by blast
qed

end
